theory Spec2Isabelle
  imports Main
begin

section \<open>Strings\<close>

text \<open>
  A Python \<open>str\<close> is a sequence of Unicode code points. The alphabet of the model is
  the 256 code points of Latin-1 (U+0000 to U+00FF, carried by \<open>char\<close>) and two further
  code points of the Unicode database: U+0130 (LATIN CAPITAL LETTER I WITH DOT ABOVE), a
  letter whose lowercase form is the two code points U+0069 U+0307, and U+0307 (COMBINING
  DOT ABOVE), a nonspacing mark. On this alphabet the character classes and the case
  mapping below are those of CPython.
\<close>

datatype pychar = Latin1 char | CapitalIDotAbove | CombiningDotAbove

type_synonym pystr = "pychar list"

definition py :: "string \<Rightarrow> pystr" where
  "py s = map Latin1 s"

text \<open>
  The class \<open>\w\<close> of the \<open>re\<close> module on \<open>str\<close> patterns: the code points that are
  alphanumeric for \<open>str.isalnum\<close>, and the underscore (code point 95).
\<close>

definition word_latin1 :: "nat \<Rightarrow> bool" where
  "word_latin1 n =
     ((48 \<le> n \<and> n \<le> 57) \<or> (65 \<le> n \<and> n \<le> 90) \<or> n = 95 \<or> (97 \<le> n \<and> n \<le> 122)
      \<or> n = 170 \<or> n = 178 \<or> n = 179 \<or> n = 181 \<or> n = 185 \<or> n = 186
      \<or> (188 \<le> n \<and> n \<le> 190) \<or> (192 \<le> n \<and> n \<le> 214) \<or> (216 \<le> n \<and> n \<le> 246)
      \<or> (248 \<le> n \<and> n \<le> 255))"

fun is_word :: "pychar \<Rightarrow> bool" where
  "is_word (Latin1 c) = word_latin1 (of_char c)"
| "is_word CapitalIDotAbove = True"
| "is_word CombiningDotAbove = False"

text \<open>Letters and digits: the word characters without the underscore.\<close>

definition is_alnum :: "pychar \<Rightarrow> bool" where
  "is_alnum c = (is_word c \<and> c \<noteq> Latin1 (CHR ''_''))"

text \<open>\<open>str.lower\<close>, one code point at a time.\<close>

definition upper_latin1 :: "nat \<Rightarrow> bool" where
  "upper_latin1 n = ((65 \<le> n \<and> n \<le> 90) \<or> (192 \<le> n \<and> n \<le> 222 \<and> n \<noteq> 215))"

fun lower_char :: "pychar \<Rightarrow> pystr" where
  "lower_char (Latin1 c) =
     (if upper_latin1 (of_char c) then [Latin1 (char_of (of_char c + (32::nat)))]
      else [Latin1 c])"
| "lower_char CapitalIDotAbove = [Latin1 (CHR ''i''), CombiningDotAbove]"
| "lower_char CombiningDotAbove = [CombiningDotAbove]"

definition lower :: "pystr \<Rightarrow> pystr" where
  "lower s = concat (map lower_char s)"

text \<open>\<open>re.sub(r'\W+', '', s)\<close>: every maximal run of non-word characters is deleted.\<close>

definition sub_nonword :: "pystr \<Rightarrow> pystr" where
  "sub_nonword s = filter is_word s"

text \<open>
  \<open>clean_string\<close>. The argument is falsy when it is \<open>None\<close> or the empty string; the
  callers always pass a \<open>str\<close>, which is \<open>clean_string\<close>.
\<close>

fun clean_string_arg :: "pystr option \<Rightarrow> pystr" where
  "clean_string_arg None = []"
| "clean_string_arg (Some s) = (if s \<noteq> [] then lower (sub_nonword s) else [])"

definition clean_string :: "pystr \<Rightarrow> pystr" where
  "clean_string s = clean_string_arg (Some s)"

text \<open>
  The normalisation as the specification words it: the lowercase form of the input,
  with every character that is not a letter or a digit removed.
\<close>

definition normalize_spec :: "pystr \<Rightarrow> pystr" where
  "normalize_spec s = filter is_alnum (lower s)"

text \<open>\<open>str.strip()\<close>: the whitespace code points of the alphabet.\<close>

definition space_latin1 :: "nat \<Rightarrow> bool" where
  "space_latin1 n = ((9 \<le> n \<and> n \<le> 13) \<or> (28 \<le> n \<and> n \<le> 32) \<or> n = 133 \<or> n = 160)"

fun is_space :: "pychar \<Rightarrow> bool" where
  "is_space (Latin1 c) = space_latin1 (of_char c)"
| "is_space CapitalIDotAbove = False"
| "is_space CombiningDotAbove = False"

definition strip :: "pystr \<Rightarrow> pystr" where
  "strip s = rev (dropWhile is_space (rev (dropWhile is_space s)))"

text \<open>The substring test \<open>sub in s\<close> of Python.\<close>

fun starts_with :: "'a list \<Rightarrow> 'a list \<Rightarrow> bool" where
  "starts_with [] ys = True"
| "starts_with (x # xs) [] = False"
| "starts_with (x # xs) (y # ys) = (x = y \<and> starts_with xs ys)"

fun str_in :: "'a list \<Rightarrow> 'a list \<Rightarrow> bool" where
  "str_in sub [] = (sub = [])"
| "str_in sub (y # ys) = (starts_with sub (y # ys) \<or> str_in sub ys)"

text \<open>
  How \<open>pathlib\<close> reads the right operand of \<open>folder / s\<close> on a POSIX system: \<open>s\<close> is
  split at the separator, and the empty components and the components \<open>.\<close> are dropped.
\<close>

definition slash :: pychar where
  "slash = Latin1 (CHR ''/'')"

fun split_sep :: "pystr \<Rightarrow> pystr list" where
  "split_sep [] = [[]]"
| "split_sep (c # cs) =
     (if c = slash then [] # split_sep cs
      else (case split_sep cs of [] \<Rightarrow> [[c]] | w # ws \<Rightarrow> (c # w) # ws))"

definition parts :: "pystr \<Rightarrow> pystr list" where
  "parts s = filter (\<lambda>x. x \<noteq> [] \<and> x \<noteq> py ''.'') (split_sep s)"

text \<open>
  The strings \<open>s\<close> for which \<open>folder / s\<close> stays below \<open>folder\<close>: \<open>s\<close> is not absolute and
  has no component \<open>..\<close>. The tree below says nothing about the other paths.
\<close>

definition inside :: "pystr \<Rightarrow> bool" where
  "inside s = (\<not> starts_with [slash] s \<and> py ''..'' \<notin> set (parts s))"

section \<open>The source tree\<close>

text \<open>
  The directory tree under \<open>SOURCE_DIR\<close>, as \<open>pathlib\<close> reads it: a node is a regular
  file or a directory, and a directory lists its entries in the order in which the
  operating system enumerates them. A path is the list of the segments that were joined
  below \<open>SOURCE_DIR\<close>: the distributor, the folder, and the names of the entries.
\<close>

datatype node = File | Dir "(pystr \<times> node) list"

type_synonym path = "pystr list"

datatype error = NotADirectoryError

fun is_dir :: "node \<Rightarrow> bool" where
  "is_dir File = False"
| "is_dir (Dir entries) = True"

fun is_file :: "node \<Rightarrow> bool" where
  "is_file File = True"
| "is_file (Dir entries) = False"

text \<open>
  \<open>folder / s\<close> followed by \<open>exists()\<close>: the node reached from \<open>folder\<close> along the
  components of \<open>s\<close>, if there is one. Nothing lies below a regular file.
\<close>

fun descend :: "node \<Rightarrow> pystr list \<Rightarrow> node option" where
  "descend n [] = Some n"
| "descend File (c # cs) = None"
| "descend (Dir entries) (c # cs) =
     (case map_of entries c of None \<Rightarrow> None | Some n \<Rightarrow> descend n cs)"

definition child :: "node \<Rightarrow> pystr \<Rightarrow> node option" where
  "child folder s = descend folder (parts s)"

text \<open>\<open>Path.name\<close>: the final component.\<close>

definition name :: "path \<Rightarrow> pystr" where
  "name p = (if p = [] then [] else last p)"

text \<open>
  \<open>folder.rglob("*")\<close> as CPython 3.12 enumerates it (the source needs 3.12, for the
  backslash inside an f-string expression). The selector for \<open>**\<close> produces the starting
  points: \<open>folder\<close> itself, then, for each directory that \<open>Path.walk\<close> visits top-down
  from \<open>folder\<close>, its subdirectories. The selector for \<open>*\<close> lists all the entries of each
  starting point, files and directories alike. So \<open>listing\<close> is what one starting point
  yields, and \<open>below\<close> is what the starting points other than \<open>folder\<close> yield: first the
  listings of the subdirectories of \<open>folder\<close>, then what lies below each of them. A
  regular file yields nothing. The paths are relative to \<open>folder\<close>.
\<close>

fun listing :: "node \<Rightarrow> (path \<times> node) list" where
  "listing File = []"
| "listing (Dir entries) = map (\<lambda>e. ([fst e], snd e)) entries"

definition under :: "pystr \<Rightarrow> (path \<times> node) list \<Rightarrow> (path \<times> node) list" where
  "under n qs = map (\<lambda>q. (n # fst q, snd q)) qs"

fun below :: "node \<Rightarrow> (path \<times> node) list" where
  "below File = []"
| "below (Dir entries) =
     concat (map (\<lambda>e. under (fst e) (listing (snd e))) entries)
     @ concat (map (\<lambda>e. under (fst e) (below (snd e))) entries)"

definition rglob :: "node \<Rightarrow> (path \<times> node) list" where
  "rglob folder = listing folder @ below folder"

section \<open>ImageManager\<close>

text \<open>
  The list \<open>matching_files\<close> of \<open>find_image\<close>: the regular files under the target folder
  whose cleaned name contains the cleaned title, as paths below \<open>SOURCE_DIR\<close>.
\<close>

definition matching_files :: "pystr \<Rightarrow> path \<Rightarrow> node \<Rightarrow> path list" where
  "matching_files movie_title base target_folder =
     map (\<lambda>q. base @ fst q)
       (filter (\<lambda>q. is_file (snd q) \<and> str_in (clean_string movie_title) (clean_string (name (fst q))))
          (rglob target_folder))"

text \<open>The inner loop over \<open>matching_files\<close> for one priority tag.\<close>

fun first_tagged :: "pystr \<Rightarrow> path list \<Rightarrow> path option" where
  "first_tagged priority_tag [] = None"
| "first_tagged priority_tag (f # fs) =
     (if str_in priority_tag (name f) then Some f else first_tagged priority_tag fs)"

text \<open>The loop over the priority tags, then the first of \<open>matching_files\<close>, then \<open>None\<close>.\<close>

fun by_priority :: "pystr list \<Rightarrow> path list \<Rightarrow> path option" where
  "by_priority [] fs = (case fs of [] \<Rightarrow> None | f # rest \<Rightarrow> Some f)"
| "by_priority (priority_tag # tags) fs =
     (case first_tagged priority_tag fs of
        Some f \<Rightarrow> Some f
      | None \<Rightarrow> by_priority tags fs)"

definition priority_tags :: "pystr list" where
  "priority_tags = [py ''(1)'', py ''(2)'']"

text \<open>
  The choice of \<open>target_folder\<close> among the entries of the distributor folder: its name
  and its node, or \<open>None\<close> when \<open>target_folder.exists()\<close> fails. \<open>poster_dir\<close> is the
  condition of the comprehension that builds \<open>poster_folders\<close>.
\<close>

definition poster_dir :: "pystr \<times> node \<Rightarrow> bool" where
  "poster_dir f = (str_in (py ''Poster'') (fst f) \<and> is_dir (snd f))"

definition poster_folders :: "(pystr \<times> node) list \<Rightarrow> (pystr \<times> node) list" where
  "poster_folders entries = filter poster_dir entries"

definition target_folder :: "(pystr \<times> node) list \<Rightarrow> pystr \<Rightarrow> (pystr \<times> node) option" where
  "target_folder entries folder_type =
     (if length (poster_folders entries) = 1
         \<and> str_in (py ''Horizontal Posters'') (fst (hd (poster_folders entries)))
      then Some (hd (poster_folders entries))
      else map_option (Pair folder_type) (child (Dir entries) folder_type))"

text \<open>The search of \<open>find_image\<close> once the target folder is chosen.\<close>

definition search_folder :: "pystr \<Rightarrow> path \<Rightarrow> node \<Rightarrow> path option" where
  "search_folder movie_title base folder =
     by_priority priority_tags (matching_files movie_title base folder)"

text \<open>
  \<open>find_image\<close>. \<open>iterdir()\<close> raises \<open>NotADirectoryError\<close> when the distributor path
  exists and is a regular file.
\<close>

definition find_image :: "node \<Rightarrow> pystr \<Rightarrow> pystr \<Rightarrow> pystr \<Rightarrow> error + path option" where
  "find_image source_dir movie_title distributor folder_type =
     (case child source_dir distributor of
        None \<Rightarrow> Inr None
      | Some File \<Rightarrow> Inl NotADirectoryError
      | Some (Dir entries) \<Rightarrow>
          (case target_folder entries folder_type of
             None \<Rightarrow> Inr None
           | Some t \<Rightarrow>
               Inr (search_folder movie_title [distributor, fst t] (snd t))))"

text \<open>The loop of \<open>find_image_by_title_only\<close>: the first file that matches is returned.\<close>

fun first_match :: "pystr \<Rightarrow> path \<Rightarrow> (path \<times> node) list \<Rightarrow> path option" where
  "first_match title base [] = None"
| "first_match title base (q # qs) =
     (if is_file (snd q) \<and> str_in (clean_string title) (clean_string (name (fst q)))
      then Some (base @ fst q)
      else first_match title base qs)"

definition find_image_by_title_only :: "node \<Rightarrow> pystr \<Rightarrow> pystr \<Rightarrow> pystr \<Rightarrow> path option" where
  "find_image_by_title_only source_dir title distributor folder_type =
     (case child source_dir distributor of
        None \<Rightarrow> None
      | Some dist_folder \<Rightarrow>
          (case child dist_folder folder_type of
             None \<Rightarrow> None
           | Some t \<Rightarrow> first_match title [distributor, folder_type] (rglob t)))"

text \<open>
  \<open>copy_image\<close>. What \<open>mkdir\<close> and \<open>shutil.copy\<close> do is the environment's answer to the
  attempt, an argument of the model; the state is the list \<open>copy_errors\<close>.
\<close>

datatype copy_outcome = Copied | PermissionDenied | OtherError

definition copy_image :: "path list \<Rightarrow> copy_outcome \<Rightarrow> path \<Rightarrow> pystr option \<times> path list" where
  "copy_image copy_errors outcome src_path =
     (case outcome of
        Copied \<Rightarrow> (Some (name src_path), copy_errors)
      | PermissionDenied \<Rightarrow> (None, copy_errors @ [src_path])
      | OtherError \<Rightarrow> (None, copy_errors @ [src_path]))"

text \<open>
  Directory entries have non-empty names; this is what makes the name returned by a
  successful \<open>copy_image\<close> truthy.
\<close>

fun wf_node :: "node \<Rightarrow> bool" where
  "wf_node File = True"
| "wf_node (Dir entries) = (\<forall>e \<in> set entries. fst e \<noteq> [] \<and> wf_node (snd e))"

section \<open>process_images\<close>

text \<open>
  A row of the sheet \<open>Movies\<close> as \<open>pandas\<close> reads it: a cell is \<open>None\<close> when \<open>pd.notna\<close>
  fails, and its text otherwise.
\<close>

record row =
  Title :: "pystr option"
  Distributor :: "pystr option"

record images =
  Poster :: "pystr option"
  Still :: "pystr option"

text \<open>
  The state of the run: the dictionaries \<open>movie_data\<close> and \<open>not_found\<close>, in insertion
  order, and \<open>img_manager.copy_errors\<close>.
\<close>

record run_state =
  movie_data :: "(pystr \<times> images) list"
  not_found :: "(pystr \<times> pystr list) list"
  copy_errors :: "path list"

text \<open>Truthiness of an optional string, and \<open>x or default\<close>.\<close>

fun truthy :: "pystr option \<Rightarrow> bool" where
  "truthy None = False"
| "truthy (Some s) = (s \<noteq> [])"

fun or_else :: "pystr option \<Rightarrow> pystr \<Rightarrow> pystr" where
  "or_else None d = d"
| "or_else (Some s) d = (if s \<noteq> [] then s else d)"

text \<open>\<open>d[k] = v\<close> on a dictionary, and \<open>d[k].append(v)\<close> on a \<open>defaultdict(list)\<close>.\<close>

fun dict_set :: "('k \<times> 'v) list \<Rightarrow> 'k \<Rightarrow> 'v \<Rightarrow> ('k \<times> 'v) list" where
  "dict_set [] k v = [(k, v)]"
| "dict_set (kv # kvs) k v = (if fst kv = k then (k, v) # kvs else kv # dict_set kvs k v)"

fun dict_append :: "('k \<times> 'v list) list \<Rightarrow> 'k \<Rightarrow> 'v \<Rightarrow> ('k \<times> 'v list) list" where
  "dict_append [] k v = [(k, [v])]"
| "dict_append (kv # kvs) k v =
     (if fst kv = k then (k, snd kv @ [v]) # kvs else kv # dict_append kvs k v)"

text \<open>The titles recorded under a distributor in \<open>not_found\<close>.\<close>

definition bucket :: "(pystr \<times> pystr list) list \<Rightarrow> pystr \<Rightarrow> pystr list" where
  "bucket nf distributor = (case map_of nf distributor of None \<Rightarrow> [] | Some titles \<Rightarrow> titles)"

text \<open>
  \<open>find_image\<close>, and \<open>find_image_by_title_only\<close> when it returned \<open>None\<close> (a \<open>Path\<close> is
  always truthy).
\<close>

definition resolve :: "node \<Rightarrow> pystr \<Rightarrow> pystr \<Rightarrow> pystr \<Rightarrow> error + path option" where
  "resolve source_dir title_str distributor_str folder_type =
     (case find_image source_dir title_str distributor_str folder_type of
        Inl e \<Rightarrow> Inl e
      | Inr (Some found) \<Rightarrow> Inr (Some found)
      | Inr None \<Rightarrow>
          Inr (find_image_by_title_only source_dir title_str distributor_str folder_type))"

text \<open>\<open>copy_image(path, ...) if path else None\<close>.\<close>

definition copy_if_found :: "path list \<Rightarrow> copy_outcome \<Rightarrow> path option \<Rightarrow> pystr option \<times> path list" where
  "copy_if_found errs outcome found =
     (case found of None \<Rightarrow> (None, errs) | Some src_path \<Rightarrow> copy_image errs outcome src_path)"

text \<open>
  The body of the loop over the rows, for a row whose title and distributor are present;
  \<open>poster_copy\<close> and \<open>still_copy\<close> are the outcomes of the two copies, should they be
  attempted.
\<close>

definition process_entry ::
  "node \<Rightarrow> run_state \<Rightarrow> pystr \<Rightarrow> pystr \<Rightarrow> copy_outcome \<Rightarrow> copy_outcome \<Rightarrow> error + run_state" where
  "process_entry source_dir st title_str distributor_str poster_copy still_copy =
     (case resolve source_dir title_str distributor_str (py ''Poster'') of
        Inl e \<Rightarrow> Inl e
      | Inr poster_path \<Rightarrow>
          (case resolve source_dir title_str distributor_str (py ''Still'') of
             Inl e \<Rightarrow> Inl e
           | Inr still_path \<Rightarrow>
               (let poster = copy_if_found (copy_errors st) poster_copy poster_path;
                    still = copy_if_found (snd poster) still_copy still_path;
                    st1 = st\<lparr>movie_data := dict_set (movie_data st) title_str
                                 \<lparr>Poster = fst poster, Still = fst still\<rparr>,
                             copy_errors := snd still\<rparr>
                in Inr (if \<not> truthy (fst poster) \<and> \<not> truthy (fst still)
                        then st1\<lparr>not_found := dict_append (not_found st1) distributor_str title_str\<rparr>
                        else st1))))"

definition process_row ::
  "node \<Rightarrow> run_state \<Rightarrow> row \<Rightarrow> copy_outcome \<Rightarrow> copy_outcome \<Rightarrow> error + run_state" where
  "process_row source_dir st r poster_copy still_copy =
     (let title_str = map_option strip (Title r);
          distributor_str = map_option strip (Distributor r)
      in if \<not> truthy title_str \<or> \<not> truthy distributor_str
         then Inr (st\<lparr>not_found := dict_append (not_found st)
                        (or_else distributor_str (py ''UNDEFINED DISTRIBUTOR''))
                        (or_else title_str (py ''Undefined title''))\<rparr>)
         else process_entry source_dir st (the title_str) (the distributor_str)
                poster_copy still_copy)"

text \<open>The loop: an exception of a row ends the run.\<close>

fun process_rows ::
  "node \<Rightarrow> run_state \<Rightarrow> (row \<times> copy_outcome \<times> copy_outcome) list \<Rightarrow> error + run_state" where
  "process_rows source_dir st [] = Inr st"
| "process_rows source_dir st (x # rest) =
     (case process_row source_dir st (fst x) (fst (snd x)) (snd (snd x)) of
        Inl e \<Rightarrow> Inl e
      | Inr st' \<Rightarrow> process_rows source_dir st' rest)"

section \<open>ExcelHandler\<close>

text \<open>
  The rows of the sheet from row 2 on: the title in column B and the two cells that
  \<open>update_images\<close> writes, columns D and E. A cell is empty (\<open>None\<close>) or holds text.
\<close>

record sheet_row =
  title_cell :: "pystr option"
  poster_cell :: "pystr option"
  still_cell :: "pystr option"

text \<open>
  The first loop of \<open>update_images\<close>: \<open>sheet_title_map\<close> sends a cleaned title to the
  cell, here the index of the row, that was stored last under it.
\<close>

fun sheet_title_map :: "sheet_row list \<Rightarrow> nat \<Rightarrow> (pystr \<rightharpoonup> nat) \<Rightarrow> (pystr \<rightharpoonup> nat)" where
  "sheet_title_map [] i m = m"
| "sheet_title_map (r # rs) i m =
     sheet_title_map rs (Suc i)
       (if truthy (title_cell r) then m(clean_string (the (title_cell r)) \<mapsto> i) else m)"

text \<open>The body of the second loop, for one item of \<open>movie_data\<close>.\<close>

definition write_item :: "(pystr \<rightharpoonup> nat) \<Rightarrow> pystr \<times> images \<Rightarrow> sheet_row list \<Rightarrow> sheet_row list" where
  "write_item m item sheet =
     (case m (clean_string (fst item)) of
        None \<Rightarrow> sheet
      | Some i \<Rightarrow>
          (let sheet1 = (if truthy (Poster (snd item))
                         then sheet[i := (sheet ! i)\<lparr>poster_cell := Poster (snd item)\<rparr>]
                         else sheet)
           in if truthy (Still (snd item))
              then sheet1[i := (sheet1 ! i)\<lparr>still_cell := Still (snd item)\<rparr>]
              else sheet1))"

definition update_images :: "sheet_row list \<Rightarrow> (pystr \<times> images) list \<Rightarrow> sheet_row list" where
  "update_images sheet data = fold (write_item (sheet_title_map sheet 0 Map.empty)) data sheet"

text \<open>The cleaned title under which a row enters \<open>sheet_title_map\<close>, if it does.\<close>

definition row_key :: "sheet_row \<Rightarrow> pystr option" where
  "row_key r = (if truthy (title_cell r) then Some (clean_string (the (title_cell r))) else None)"

section \<open>The folder selection in the words of the specification\<close>


section \<open>A successful transfer in the words of the specification\<close>

text \<open>
  The attempt for a folder type ends in a successful transfer: a source path was
  resolved, by \<open>find_image\<close> or by the fallback, and its copy succeeded.
\<close>

definition transferred :: "node \<Rightarrow> pystr \<Rightarrow> pystr \<Rightarrow> pystr \<Rightarrow> copy_outcome \<Rightarrow> bool" where
  "transferred source_dir title distributor folder_type outcome =
     (case resolve source_dir title distributor folder_type of
        Inl e \<Rightarrow> False
      | Inr None \<Rightarrow> False
      | Inr (Some src_path) \<Rightarrow> outcome = Copied)"

section \<open>Example trees\<close>

text \<open>
  A distributor whose only folder with \<open>Poster\<close> in its name is
  \<open>Horizontal Posters Extra\<close>, beside a folder \<open>Still\<close>.
\<close>

definition entries_hp :: "(pystr \<times> node) list" where
  "entries_hp =
     [(py ''Horizontal Posters Extra'', Dir [(py ''Title A.jpg'', File)]),
      (py ''Still'', Dir [(py ''Title A still.jpg'', File)])]"

definition tree_hp :: node where
  "tree_hp = Dir [(py ''DistX'', Dir entries_hp)]"

text \<open>A distributor with numbered duplicates under \<open>Poster\<close> and a nested still.\<close>

definition entries_x :: "(pystr \<times> node) list" where
  "entries_x =
     [(py ''Poster'', Dir [(py ''X(2).jpg'', File), (py ''X(1).jpg'', File), (py ''X.jpg'', File)]),
      (py ''Still'', Dir [(py ''frames'', Dir [(py ''X still.jpg'', File)])])]"

definition tree_x :: node where
  "tree_x = Dir [(py ''DistX'', Dir entries_x)]"

text \<open>The tree of the end-to-end scenario of the specification.\<close>

definition entries_a :: "(pystr \<times> node) list" where
  "entries_a = [(py ''Poster'', Dir [(py ''title-a-final.jpg'', File), (py ''other.jpg'', File)])]"

definition tree_a :: node where
  "tree_a = Dir [(py ''DistX'', Dir entries_a)]"

text \<open>Nested folders under \<open>Poster\<close>, the deeper one listed first by the system.\<close>

definition folder_k :: node where
  "folder_k =
     Dir [(py ''sub2'', Dir [(py ''deep'', Dir [(py ''K(1) deep.jpg'', File)])]),
          (py ''sub1'', Dir [(py ''K(1) shallow.jpg'', File)])]"

definition entries_k :: "(pystr \<times> node) list" where
  "entries_k = [(py ''Poster'', folder_k)]"

definition tree_k :: node where
  "tree_k = Dir [(py ''DistX'', Dir entries_k)]"

text \<open>A distributor that is a path of two components.\<close>

definition tree_s :: node where
  "tree_s = Dir [(py ''Sony'', Dir [(py ''Columbia'',
     Dir [(py ''Poster'', Dir [(py ''X.jpg'', File)])])])]"

text \<open>A regular file where the folder of the distributor is expected.\<close>

definition tree_f :: node where
  "tree_f = Dir [(py ''DistX'', File)]"

text \<open>A run that starts empty, a row of the catalog, and a sheet with its results.\<close>

definition st0 :: run_state where
  "st0 = \<lparr>movie_data = [], not_found = [], copy_errors = []\<rparr>"

definition row_a :: row where
  "row_a = \<lparr>Title = Some (py '' Title A ''), Distributor = Some (py ''DistX'')\<rparr>"

definition sheet_ab :: "sheet_row list" where
  "sheet_ab =
     [\<lparr>title_cell = Some (py ''Title A''), poster_cell = None, still_cell = Some (py ''old.jpg'')\<rparr>,
      \<lparr>title_cell = Some (py ''Title B''), poster_cell = Some (py ''b.jpg''), still_cell = None\<rparr>]"

definition data_a :: "(pystr \<times> images) list" where
  "data_a = [(py ''title a!'', \<lparr>Poster = Some (py ''title-a-final.jpg''), Still = None\<rparr>)]"

section \<open>Properties of clean_string\<close>

lemma upper_latin1_shift:
  assumes "upper_latin1 n"
  shows "n + 32 < 256 \<and> word_latin1 (n + 32) \<and> \<not> upper_latin1 (n + 32)"
proof -
  consider (ascii) "65 \<le> n" "n \<le> 90" | (supp) "192 \<le> n" "n \<le> 222" "n \<noteq> 215"
    using assms unfolding upper_latin1_def by blast
  then show ?thesis
  proof cases
    case ascii
    then have "97 \<le> n + 32" "n + 32 \<le> 122" by simp_all
    then show ?thesis by (simp add: word_latin1_def upper_latin1_def)
  next
    case supp
    then have "n \<le> 214 \<or> 216 \<le> n" by arith
    with supp show ?thesis by (simp add: word_latin1_def upper_latin1_def)
  qed
qed

lemma lower_char_latin1:
  assumes "is_word (Latin1 c)" and "d \<in> set (lower_char (Latin1 c))"
  shows "is_word d \<and> lower_char d = [d]"
proof (cases "upper_latin1 (of_char c)")
  case False
  with assms show ?thesis by simp
next
  case True
  from upper_latin1_shift [OF True]
  have r: "(of_char c :: nat) + 32 < 256" and w: "word_latin1 (of_char c + 32)"
    and u: "\<not> upper_latin1 (of_char c + 32)" by simp_all
  from True assms have d: "d = Latin1 (char_of (of_char c + (32::nat)))" by simp
  have "(of_char (char_of (of_char c + (32::nat))) :: nat) = of_char c + 32"
    using r by simp
  with w u show ?thesis by (simp add: d)
qed

lemma lower_char_closed:
  assumes "is_word c" and "list_all is_word (lower_char c)" and "d \<in> set (lower_char c)"
  shows "is_word d \<and> lower_char d = [d]"
proof (cases c)
  case (Latin1 a)
  with assms lower_char_latin1 show ?thesis by blast
qed (use assms in simp_all)

lemma lower_sub_fixed:
  "\<forall>d \<in> set xs. is_word d \<and> lower_char d = [d] \<Longrightarrow> lower (sub_nonword xs) = xs"
  by (induction xs) (simp_all add: lower_def sub_nonword_def)

lemma clean_string_fixed:
  "\<forall>d \<in> set xs. is_word d \<and> lower_char d = [d] \<Longrightarrow> clean_string xs = xs"
  by (cases xs) (simp_all add: clean_string_def lower_sub_fixed del: lower_char.simps is_word.simps)

lemma clean_string_chars:
  assumes "d \<in> set (clean_string s)"
  obtains c where "c \<in> set s" and "is_word c" and "d \<in> set (lower_char c)"
  using assms
  by (auto simp: clean_string_def lower_def sub_nonword_def split: if_splits
           simp del: lower_char.simps is_word.simps)

lemma clean_string_Nil: "clean_string [] = []"
  by (simp add: clean_string_def)

text \<open>
  C4. \<open>clean_string\<close> is total and returns the empty key on an empty or absent argument,
  but it does not remove every character that is not a letter or a digit: \<open>\W\<close> leaves
  the underscore in place. On \<open>a_b\<close> the code returns \<open>a_b\<close>, where the lowercase form
  without the characters that are neither letters nor digits is \<open>ab\<close>.
\<close>

theorem clean_string_keeps_underscore:
  "clean_string (py ''a_b'') = py ''a_b'' \<and> normalize_spec (py ''a_b'') = py ''ab''
   \<and> clean_string_arg None = [] \<and> clean_string_arg (Some []) = []"
  by code_simp

text \<open>
  C5, as stated, fails: on the one-character string U+0130 the first pass returns
  U+0069 U+0307, and the second pass deletes the combining mark U+0307.
\<close>

theorem clean_string_not_idempotent:
  "clean_string (clean_string [CapitalIDotAbove]) \<noteq> clean_string [CapitalIDotAbove]"
  by code_simp

text \<open>
  C5, amended. \<open>clean_string\<close> is idempotent on every string in which each word character
  lowercases to word characters only, which every string of Latin-1 characters does; and
  it is blind to case and punctuation on the example of the specification.
\<close>

theorem clean_string_idempotent:
  assumes "\<forall>c \<in> set s. is_word c \<longrightarrow> list_all is_word (lower_char c)"
  shows "clean_string (clean_string s) = clean_string s
         \<and> clean_string (py ''The Movie!'') = clean_string (py ''the   movie'')"
proof
  show "clean_string (clean_string s) = clean_string s"
  proof (rule clean_string_fixed, rule ballI)
    fix d assume "d \<in> set (clean_string s)"
    then obtain c where "c \<in> set s" "is_word c" "d \<in> set (lower_char c)"
      by (rule clean_string_chars)
    with assms lower_char_closed show "is_word d \<and> lower_char d = [d]" by blast
  qed
  show "clean_string (py ''The Movie!'') = clean_string (py ''the   movie'')"
    by code_simp
qed

theorem clean_string_idempotent_witness:
  "clean_string (clean_string (py ''The Movie!'')) = clean_string (py ''The Movie!'')
   \<and> clean_string (py ''The Movie!'') = py ''themovie''"
proof (intro conjI)
  have h: "\<forall>c \<in> set (py ''The Movie!''). is_word c \<longrightarrow> list_all is_word (lower_char c)"
    by code_simp
  show "clean_string (clean_string (py ''The Movie!'')) = clean_string (py ''The Movie!'')"
    using clean_string_idempotent [OF h] by (rule conjunct1)
  show "clean_string (py ''The Movie!'') = py ''themovie''"
    by code_simp
qed

section \<open>Properties of the resolver\<close>



lemma first_tagged_in: "first_tagged tag fs = Some f \<Longrightarrow> f \<in> set fs"
  by (induction fs) (auto split: if_splits)

lemma by_priority_in: "by_priority tags fs = Some f \<Longrightarrow> f \<in> set fs"
  by (induction tags) (auto split: list.splits option.splits dest: first_tagged_in)


lemma by_priority_Nil: "by_priority tags [] = None"
  by (induction tags) auto

lemma find_image_Dir:
  assumes "child source_dir distributor = Some (Dir entries)"
  shows "find_image source_dir movie_title distributor folder_type =
     (case target_folder entries folder_type of
        None \<Rightarrow> Inr None
      | Some t \<Rightarrow> Inr (search_folder movie_title [distributor, fst t] (snd t)))"
  using assms by (simp add: find_image_def)













lemma parts_Poster: "parts (py ''Poster'') = [py ''Poster'']"
  by code_simp








lemma first_match_matching:
  "first_match title base qs =
     (case map (\<lambda>q. base @ fst q)
             (filter (\<lambda>q. is_file (snd q)
                \<and> str_in (clean_string title) (clean_string (name (fst q)))) qs) of
        [] \<Rightarrow> None
      | f # rest \<Rightarrow> Some f)"
  by (induction qs) simp_all

text \<open>
  C6. For a distributor and a folder type that stay below \<open>SOURCE_DIR\<close>,
  \<open>find_image_by_title_only\<close> looks at the folder \<open>distributor / folder_type\<close> and nowhere
  else, and returns the first file, in the order of enumeration, whose cleaned name
  contains the cleaned title, or nothing when one of the two folders is absent or no file
  matches. The orchestrator falls back on it only when \<open>find_image\<close> returned nothing.
\<close>

theorem find_image_by_title_only_first_match:
  assumes "inside distributor" and "inside folder_type"
  shows "find_image_by_title_only source_dir title distributor folder_type =
     (case child source_dir distributor of
        None \<Rightarrow> None
      | Some dist_folder \<Rightarrow>
          (case child dist_folder folder_type of
             None \<Rightarrow> None
           | Some folder \<Rightarrow>
               (case matching_files title [distributor, folder_type] folder of
                  [] \<Rightarrow> None
                | f # rest \<Rightarrow> Some f)))
   \<and> (find_image source_dir title distributor folder_type \<noteq> Inr None \<longrightarrow>
        resolve source_dir title distributor folder_type
          = find_image source_dir title distributor folder_type)
   \<and> (find_image source_dir title distributor folder_type = Inr None \<longrightarrow>
        resolve source_dir title distributor folder_type
          = Inr (find_image_by_title_only source_dir title distributor folder_type))"
proof (intro conjI impI)
  show "find_image_by_title_only source_dir title distributor folder_type =
     (case child source_dir distributor of
        None \<Rightarrow> None
      | Some dist_folder \<Rightarrow>
          (case child dist_folder folder_type of
             None \<Rightarrow> None
           | Some folder \<Rightarrow>
               (case matching_files title [distributor, folder_type] folder of
                  [] \<Rightarrow> None
                | f # rest \<Rightarrow> Some f)))"
    by (simp add: find_image_by_title_only_def first_match_matching matching_files_def
             split: option.splits)
next
  assume "find_image source_dir title distributor folder_type \<noteq> Inr None"
  then show "resolve source_dir title distributor folder_type
          = find_image source_dir title distributor folder_type"
    by (simp add: resolve_def split: sum.splits option.splits)
next
  assume "find_image source_dir title distributor folder_type = Inr None"
  then show "resolve source_dir title distributor folder_type
          = Inr (find_image_by_title_only source_dir title distributor folder_type)"
    by (simp add: resolve_def)
qed

section \<open>The resolver on the example trees\<close>

lemma child_tree_hp: "child tree_hp (py ''DistX'') = Some (Dir entries_hp)"
  by code_simp

lemma child_tree_x: "child tree_x (py ''DistX'') = Some (Dir entries_x)"
  by code_simp

lemma child_tree_a: "child tree_a (py ''DistX'') = Some (Dir entries_a)"
  by code_simp



lemma rglob_folder_k:
  "map fst (rglob folder_k) =
     [[py ''sub2''], [py ''sub1''], [py ''sub2'', py ''deep''],
      [py ''sub1'', py ''K(1) shallow.jpg''], [py ''sub2'', py ''deep'', py ''K(1) deep.jpg'']]"
  by code_simp

lemma inside_DistX: "inside (py ''DistX'')"
  by code_simp

lemma inside_Poster: "inside (py ''Poster'')"
  by code_simp

lemma inside_Still: "inside (py ''Still'')"
  by code_simp

lemma inside_Sony_Columbia: "inside (py ''Sony/Columbia'')"
  by code_simp



lemma target_folder_entries_x_Poster:
  "target_folder entries_x (py ''Poster'')
     = Some (py ''Poster'', Dir [(py ''X(2).jpg'', File), (py ''X(1).jpg'', File), (py ''X.jpg'', File)])"
  by code_simp




theorem find_image_by_title_only_first_match_witness:
  "find_image tree_hp (py ''Title A still'') (py ''DistX'') (py ''Still'') = Inr None
   \<and> resolve tree_hp (py ''Title A still'') (py ''DistX'') (py ''Still'')
       = Inr (Some [py ''DistX'', py ''Still'', py ''Title A still.jpg''])
   \<and> find_image tree_x (py ''X'') (py ''DistX'') (py ''Poster'')
       = Inr (Some [py ''DistX'', py ''Poster'', py ''X(1).jpg''])
   \<and> resolve tree_x (py ''X'') (py ''DistX'') (py ''Poster'')
       = Inr (Some [py ''DistX'', py ''Poster'', py ''X(1).jpg''])
   \<and> find_image_by_title_only tree_x (py ''X'') (py ''DistX'') (py ''Poster'')
       = Some [py ''DistX'', py ''Poster'', py ''X(2).jpg'']
   \<and> find_image_by_title_only tree_k (py ''K'') (py ''DistX'') (py ''Poster'')
       = Some [py ''DistX'', py ''Poster'', py ''sub1'', py ''K(1) shallow.jpg'']
   \<and> find_image_by_title_only tree_s (py ''X'') (py ''Sony/Columbia'') (py ''Poster'')
       = Some [py ''Sony/Columbia'', py ''Poster'', py ''X.jpg'']"
proof -
  note thm_hp = find_image_by_title_only_first_match
    [OF inside_DistX inside_Still, of tree_hp "py ''Title A still''"]
  note thm_x = find_image_by_title_only_first_match
    [OF inside_DistX inside_Poster, of tree_x "py ''X''"]
  note thm_k = find_image_by_title_only_first_match
    [OF inside_DistX inside_Poster, of tree_k "py ''K''"]
  note thm_s = find_image_by_title_only_first_match
    [OF inside_Sony_Columbia inside_Poster, of tree_s "py ''X''"]
  have t: "target_folder entries_hp (py ''Still'')
             = Some (py ''Horizontal Posters Extra'', Dir [(py ''Title A.jpg'', File)])"
    by code_simp
  have s: "search_folder (py ''Title A still'') [py ''DistX'', py ''Horizontal Posters Extra'']
             (Dir [(py ''Title A.jpg'', File)]) = None"
    by code_simp
  have a: "find_image tree_hp (py ''Title A still'') (py ''DistX'') (py ''Still'') = Inr None"
    using t s by (simp add: find_image_Dir [OF child_tree_hp])
  have e: "(case child tree_hp (py ''DistX'') of
              None \<Rightarrow> None
            | Some dist_folder \<Rightarrow>
                (case child dist_folder (py ''Still'') of
                   None \<Rightarrow> None
                 | Some folder \<Rightarrow>
                     (case matching_files (py ''Title A still'') [py ''DistX'', py ''Still''] folder of
                        [] \<Rightarrow> None
                      | f # rest \<Rightarrow> Some f)))
           = Some [py ''DistX'', py ''Still'', py ''Title A still.jpg'']"
    by code_simp
  from thm_hp e
  have b: "find_image_by_title_only tree_hp (py ''Title A still'') (py ''DistX'') (py ''Still'')
             = Some [py ''DistX'', py ''Still'', py ''Title A still.jpg'']"
    by simp
  from thm_hp a b
  have c: "resolve tree_hp (py ''Title A still'') (py ''DistX'') (py ''Still'')
       = Inr (Some [py ''DistX'', py ''Still'', py ''Title A still.jpg''])"
    by simp
  have d: "find_image tree_x (py ''X'') (py ''DistX'') (py ''Poster'')
       = Inr (Some [py ''DistX'', py ''Poster'', py ''X(1).jpg''])"
  proof -
    have "search_folder (py ''X'') [py ''DistX'', py ''Poster'']
            (Dir [(py ''X(2).jpg'', File), (py ''X(1).jpg'', File), (py ''X.jpg'', File)])
          = Some [py ''DistX'', py ''Poster'', py ''X(1).jpg'']"
      by code_simp
    then show ?thesis
      by (simp add: find_image_Dir [OF child_tree_x] target_folder_entries_x_Poster)
  qed
  from thm_x d
  have f: "resolve tree_x (py ''X'') (py ''DistX'') (py ''Poster'')
       = Inr (Some [py ''DistX'', py ''Poster'', py ''X(1).jpg''])"
    by simp
  have g: "(case child tree_x (py ''DistX'') of
              None \<Rightarrow> None
            | Some dist_folder \<Rightarrow>
                (case child dist_folder (py ''Poster'') of
                   None \<Rightarrow> None
                 | Some folder \<Rightarrow>
                     (case matching_files (py ''X'') [py ''DistX'', py ''Poster''] folder of
                        [] \<Rightarrow> None
                      | f # rest \<Rightarrow> Some f)))
           = Some [py ''DistX'', py ''Poster'', py ''X(2).jpg'']"
    by code_simp
  from thm_x g
  have h: "find_image_by_title_only tree_x (py ''X'') (py ''DistX'') (py ''Poster'')
       = Some [py ''DistX'', py ''Poster'', py ''X(2).jpg'']"
    by simp
  have gk: "(case child tree_k (py ''DistX'') of
              None \<Rightarrow> None
            | Some dist_folder \<Rightarrow>
                (case child dist_folder (py ''Poster'') of
                   None \<Rightarrow> None
                 | Some folder \<Rightarrow>
                     (case matching_files (py ''K'') [py ''DistX'', py ''Poster''] folder of
                        [] \<Rightarrow> None
                      | f # rest \<Rightarrow> Some f)))
           = Some [py ''DistX'', py ''Poster'', py ''sub1'', py ''K(1) shallow.jpg'']"
    by code_simp
  from thm_k gk
  have k: "find_image_by_title_only tree_k (py ''K'') (py ''DistX'') (py ''Poster'')
       = Some [py ''DistX'', py ''Poster'', py ''sub1'', py ''K(1) shallow.jpg'']"
    by simp
  have gs: "(case child tree_s (py ''Sony/Columbia'') of
              None \<Rightarrow> None
            | Some dist_folder \<Rightarrow>
                (case child dist_folder (py ''Poster'') of
                   None \<Rightarrow> None
                 | Some folder \<Rightarrow>
                     (case matching_files (py ''X'') [py ''Sony/Columbia'', py ''Poster''] folder of
                        [] \<Rightarrow> None
                      | f # rest \<Rightarrow> Some f)))
           = Some [py ''Sony/Columbia'', py ''Poster'', py ''X.jpg'']"
    by code_simp
  from thm_s gs
  have sony: "find_image_by_title_only tree_s (py ''X'') (py ''Sony/Columbia'') (py ''Poster'')
       = Some [py ''Sony/Columbia'', py ''Poster'', py ''X.jpg'']"
    by simp
  from a c d f h k sony show ?thesis by simp
qed

section \<open>Properties of process_images\<close>

lemma listing_names:
  "wf_node n \<Longrightarrow> q \<in> set (listing n) \<Longrightarrow> fst q \<noteq> [] \<and> last (fst q) \<noteq> []"
  by (cases n) auto

lemma under_names:
  assumes "q \<in> set (under c qs)"
    and "\<forall>r \<in> set qs. fst r \<noteq> [] \<and> last (fst r) \<noteq> []"
  shows "fst q \<noteq> [] \<and> last (fst q) \<noteq> []"
proof -
  from assms(1) obtain r where "r \<in> set qs" and "q = (c # fst r, snd r)"
    unfolding under_def by auto
  with assms(2) show ?thesis by simp
qed

lemma below_names:
  "wf_node n \<Longrightarrow> q \<in> set (below n) \<Longrightarrow> fst q \<noteq> [] \<and> last (fst q) \<noteq> []"
proof (induction n arbitrary: q rule: below.induct)
  case 1
  then show ?case by simp
next
  case (2 entries)
  from "2.prems"(2) consider
      (sub) e where "e \<in> set entries" "q \<in> set (under (fst e) (listing (snd e)))"
    | (deep) e where "e \<in> set entries" "q \<in> set (under (fst e) (below (snd e)))"
    by auto
  then show ?case
  proof cases
    case sub
    from sub(1) "2.prems"(1) have w: "wf_node (snd e)" by simp
    have "\<forall>r \<in> set (listing (snd e)). fst r \<noteq> [] \<and> last (fst r) \<noteq> []"
      using listing_names [OF w] by blast
    with sub(2) show ?thesis by (rule under_names)
  next
    case deep
    from deep(1) "2.prems"(1) have w: "wf_node (snd e)" by simp
    have "\<forall>r \<in> set (below (snd e)). fst r \<noteq> [] \<and> last (fst r) \<noteq> []"
      using "2.IH" [OF deep(1) w] by blast
    with deep(2) show ?thesis by (rule under_names)
  qed
qed

lemma rglob_names:
  assumes "wf_node n" and "q \<in> set (rglob n)"
  shows "fst q \<noteq> [] \<and> last (fst q) \<noteq> []"
proof -
  from assms(2) have "q \<in> set (listing n) \<or> q \<in> set (below n)"
    by (simp add: rglob_def)
  with assms(1) listing_names below_names show ?thesis by blast
qed

lemma wf_node_descend: "wf_node n \<Longrightarrow> descend n cs = Some c \<Longrightarrow> wf_node c"
proof (induction n cs rule: descend.induct)
  case (1 n)
  then show ?case by simp
next
  case (2 c' cs)
  then show ?case by simp
next
  case (3 entries c' cs)
  from "3.prems"(2) obtain n' where m: "map_of entries c' = Some n'"
    and d: "descend n' cs = Some c"
    by (cases "map_of entries c'") simp_all
  from m have "(c', n') \<in> set entries" by (rule map_of_SomeD)
  with "3.prems"(1) have "wf_node n'" by auto
  with "3.IH" m d show ?case by blast
qed

lemma wf_node_child: "wf_node n \<Longrightarrow> child n k = Some c \<Longrightarrow> wf_node c"
  unfolding child_def by (rule wf_node_descend)

lemma wf_target_folder:
  assumes w: "wf_node (Dir entries)"
    and t: "target_folder entries folder_type = Some t"
  shows "wf_node (snd t)"
proof (cases "length (poster_folders entries) = 1
         \<and> str_in (py ''Horizontal Posters'') (fst (hd (poster_folders entries)))")
  case True
  then have "target_folder entries folder_type = Some (hd (poster_folders entries))"
    unfolding target_folder_def by (rule if_P)
  with t have e: "t = hd (poster_folders entries)" by simp
  from True have "poster_folders entries \<noteq> []" by auto
  then have "hd (poster_folders entries) \<in> set (poster_folders entries)" by simp
  then have "t \<in> set entries" by (simp add: e poster_folders_def)
  with w show ?thesis by auto
next
  case False
  then have "target_folder entries folder_type
      = map_option (Pair folder_type) (child (Dir entries) folder_type)"
    unfolding target_folder_def by (rule if_not_P)
  with t have "map_option (Pair folder_type) (child (Dir entries) folder_type) = Some t"
    by simp
  then obtain c where c: "child (Dir entries) folder_type = Some c" and "t = (folder_type, c)"
    by auto
  from wf_node_child [OF w c] \<open>t = (folder_type, c)\<close> show ?thesis by simp
qed

lemma matching_files_name:
  assumes "wf_node folder" and "g \<in> set (matching_files title base folder)"
  shows "name g \<noteq> []"
proof -
  from assms(2) obtain q where q: "q \<in> set (rglob folder)" and g: "g = base @ fst q"
    unfolding matching_files_def by auto
  from rglob_names [OF assms(1) q] have "fst q \<noteq> []" "last (fst q) \<noteq> []" by simp_all
  then show ?thesis by (simp add: g name_def)
qed

lemma find_image_name:
  assumes w: "wf_node source_dir"
    and f: "find_image source_dir title distributor folder_type = Inr (Some p)"
  shows "name p \<noteq> []"
proof (cases "child source_dir distributor")
  case None
  with f show ?thesis by (simp add: find_image_def)
next
  case (Some dist)
  show ?thesis
  proof (cases dist)
    case File
    with f Some show ?thesis by (simp add: find_image_def)
  next
    case (Dir entries)
    with Some have c: "child source_dir distributor = Some (Dir entries)" by simp
    from wf_node_child [OF w c] have we: "wf_node (Dir entries)" .
    show ?thesis
    proof (cases "target_folder entries folder_type")
      case None
      with f show ?thesis by (simp add: find_image_Dir [OF c])
    next
      case (Some t)
      with f have s: "search_folder title [distributor, fst t] (snd t) = Some p"
        by (simp add: find_image_Dir [OF c])
      from we Some have "wf_node (snd t)" by (rule wf_target_folder)
      moreover from s have "p \<in> set (matching_files title [distributor, fst t] (snd t))"
        unfolding search_folder_def by (rule by_priority_in)
      ultimately show ?thesis by (rule matching_files_name)
    qed
  qed
qed

lemma find_image_by_title_only_name:
  assumes w: "wf_node source_dir"
    and f: "find_image_by_title_only source_dir title distributor folder_type = Some p"
  shows "name p \<noteq> []"
proof -
  from f obtain dist folder where d: "child source_dir distributor = Some dist"
    and c: "child dist folder_type = Some folder"
    and m: "(case matching_files title [distributor, folder_type] folder of
               [] \<Rightarrow> None | g # rest \<Rightarrow> Some g) = Some p"
    by (auto simp: find_image_by_title_only_def first_match_matching matching_files_def
             split: option.splits)
  from m have "p \<in> set (matching_files title [distributor, folder_type] folder)"
    by (cases "matching_files title [distributor, folder_type] folder") auto
  moreover from w d c have "wf_node folder" by (blast intro: wf_node_child)
  ultimately show ?thesis by (rule matching_files_name [rotated])
qed

lemma resolve_name:
  assumes w: "wf_node source_dir"
    and r: "resolve source_dir title distributor folder_type = Inr (Some p)"
  shows "name p \<noteq> []"
proof (cases "find_image source_dir title distributor folder_type")
  case (Inl e)
  with r show ?thesis by (simp add: resolve_def)
next
  case (Inr found)
  show ?thesis
  proof (cases found)
    case None
    with r Inr have "find_image_by_title_only source_dir title distributor folder_type = Some p"
      by (simp add: resolve_def)
    with w show ?thesis by (rule find_image_by_title_only_name)
  next
    case (Some p')
    with r Inr have "find_image source_dir title distributor folder_type = Inr (Some p)"
      by (simp add: resolve_def)
    with w show ?thesis by (rule find_image_name)
  qed
qed

lemma truthy_copy_if_found:
  assumes "wf_node source_dir"
    and "resolve source_dir title distributor folder_type = Inr found"
  shows "truthy (fst (copy_if_found errs outcome found))
           = transferred source_dir title distributor folder_type outcome"
proof (cases found)
  case None
  with assms(2) show ?thesis by (simp add: copy_if_found_def transferred_def)
next
  case (Some p)
  with assms have "name p \<noteq> []" by (simp add: resolve_name)
  with Some assms(2) show ?thesis
    by (cases outcome) (simp_all add: copy_if_found_def copy_image_def transferred_def)
qed

lemma bucket_dict_append:
  "bucket (dict_append nf k v) k = bucket nf k @ [v]"
  by (induction nf) (simp_all add: bucket_def)

lemma process_entry_not_found:
  assumes w: "wf_node source_dir"
    and run: "process_entry source_dir st title distributor poster_copy still_copy = Inr st'"
  shows "not_found st' =
     (if transferred source_dir title distributor (py ''Poster'') poster_copy
         \<or> transferred source_dir title distributor (py ''Still'') still_copy
      then not_found st
      else dict_append (not_found st) distributor title)"
proof -
  from run obtain pp where pp: "resolve source_dir title distributor (py ''Poster'') = Inr pp"
    by (cases "resolve source_dir title distributor (py ''Poster'')")
       (simp_all add: process_entry_def)
  from run pp obtain sp where sp: "resolve source_dir title distributor (py ''Still'') = Inr sp"
    by (cases "resolve source_dir title distributor (py ''Still'')")
       (simp_all add: process_entry_def)
  note tp = truthy_copy_if_found [OF w pp]
  note ts = truthy_copy_if_found [OF w sp]
  from run show ?thesis
    by (auto simp: process_entry_def pp sp Let_def tp ts)
qed

text \<open>
  When the body of the loop returns, for a row whose title and distributor are present
  and non-empty once stripped, the title is appended to the bucket of its distributor in
  \<open>not_found\<close> exactly when neither the poster attempt nor the still attempt ended in a
  successful transfer; otherwise \<open>not_found\<close> is left as it was.
\<close>

lemma unmatched_iff_no_transfer:
  assumes w: "wf_node source_dir"
    and t: "Title r = Some title" and d: "Distributor r = Some distributor"
    and tn: "strip title \<noteq> []" and dn: "strip distributor \<noteq> []"
    and run: "process_row source_dir st r poster_copy still_copy = Inr st'"
  shows "(if transferred source_dir (strip title) (strip distributor) (py ''Poster'') poster_copy
             \<or> transferred source_dir (strip title) (strip distributor) (py ''Still'') still_copy
          then not_found st' = not_found st
          else not_found st' = dict_append (not_found st) (strip distributor) (strip title)
               \<and> bucket (not_found st') (strip distributor)
                   = bucket (not_found st) (strip distributor) @ [strip title])"
proof -
  from t d tn dn run
  have "process_entry source_dir st (strip title) (strip distributor) poster_copy still_copy
          = Inr st'"
    by (simp add: process_row_def)
  from process_entry_not_found [OF w this] show ?thesis
    by (simp add: bucket_dict_append)
qed

lemma process_row_isl:
  "isl (process_row source_dir st r pc sc) = isl (process_row source_dir st' r pc' sc')"
  by (simp add: process_row_def process_entry_def Let_def split: sum.splits)

lemma process_rows_isl:
  "map fst rows = map fst rows' \<Longrightarrow>
     isl (process_rows source_dir st rows) = isl (process_rows source_dir st' rows')"
proof (induction rows arbitrary: rows' st st')
  case Nil
  then show ?case by simp
next
  case (Cons x rows)
  then obtain y ys where r: "rows' = y # ys" and xy: "fst y = fst x"
    and rest: "map fst rows = map fst ys" by (cases rows') auto
  let ?a = "process_row source_dir st (fst x) (fst (snd x)) (snd (snd x))"
  let ?b = "process_row source_dir st' (fst x) (fst (snd y)) (snd (snd y))"
  have i: "isl ?a = isl ?b" by (rule process_row_isl)
  show ?case
  proof (cases ?a)
    case (Inl e)
    with i obtain e' where "?b = Inl e'" by (cases ?b) simp_all
    with Inl show ?thesis by (simp add: r xy)
  next
    case (Inr s)
    with i obtain s' where b: "?b = Inr s'" by (cases ?b) simp_all
    from Cons.IH [OF rest] have "isl (process_rows source_dir s rows)
        = isl (process_rows source_dir s' ys)" .
    with Inr b show ?thesis by (simp add: r xy)
  qed
qed

text \<open>
  C8. A copy that fails, on a permission error or any other, makes \<open>copy_image\<close> return
  no name and append the source path to \<open>copy_errors\<close>; a copy that succeeds returns the
  name of the source file and leaves \<open>copy_errors\<close> alone. Whether a run is aborted does
  not depend on the outcomes of its copies.
\<close>

theorem copy_image_failure:
  "(outcome \<noteq> Copied \<longrightarrow> copy_image errs outcome src_path = (None, errs @ [src_path]))
   \<and> (outcome = Copied \<longrightarrow> copy_image errs outcome src_path = (Some (name src_path), errs))
   \<and> isl (process_rows source_dir st rows)
       = isl (process_rows source_dir st (map (\<lambda>x. (fst x, Copied, Copied)) rows))"
proof (intro conjI impI)
  assume "outcome \<noteq> Copied"
  then show "copy_image errs outcome src_path = (None, errs @ [src_path])"
    by (cases outcome) (simp_all add: copy_image_def)
next
  assume "outcome = Copied"
  then show "copy_image errs outcome src_path = (Some (name src_path), errs)"
    by (simp add: copy_image_def)
next
  show "isl (process_rows source_dir st rows)
       = isl (process_rows source_dir st (map (\<lambda>x. (fst x, Copied, Copied)) rows))"
    by (rule process_rows_isl) (simp add: comp_def)
qed

section \<open>Properties of update_images\<close>

lemma sheet_title_map_inv:
  "sheet_title_map rows i m k = Some j \<Longrightarrow>
     m k = Some j \<or> (i \<le> j \<and> j < i + length rows \<and> row_key (rows ! (j - i)) = Some k)"
proof (induction rows arbitrary: i m)
  case Nil
  then show ?case by simp
next
  case (Cons r rows)
  let ?m = "if truthy (title_cell r) then m(clean_string (the (title_cell r)) \<mapsto> i) else m"
  from Cons.prems have "sheet_title_map rows (Suc i) ?m k = Some j" by simp
  from Cons.IH [OF this]
  consider (old) "?m k = Some j"
    | (new) "Suc i \<le> j" "j < Suc i + length rows" "row_key (rows ! (j - Suc i)) = Some k"
    by blast
  then show ?case
  proof cases
    case old
    show ?thesis
    proof (cases "truthy (title_cell r) \<and> k = clean_string (the (title_cell r))")
      case True
      with old have "j = i" by simp
      with True show ?thesis by (simp add: row_key_def)
    next
      case False
      with old have "m k = Some j" by (auto split: if_splits)
      then show ?thesis by simp
    qed
  next
    case new
    from new(1) have "(r # rows) ! (j - i) = rows ! (j - Suc i)"
      by (simp add: Suc_le_eq nth_Cons')
    with new show ?thesis by simp
  qed
qed

lemma sheet_title_map_row:
  assumes "sheet_title_map sheet 0 Map.empty k = Some j"
  shows "j < length sheet \<and> row_key (sheet ! j) = Some k"
  using sheet_title_map_inv [OF assms] by simp

lemma length_write_item: "length (write_item m item sheet) = length sheet"
  by (simp add: write_item_def Let_def split: option.splits)

lemma title_write_item:
  assumes "i < length sheet"
  shows "title_cell (write_item m item sheet ! i) = title_cell (sheet ! i)"
proof (cases "m (clean_string (fst item))")
  case None
  then show ?thesis by (simp add: write_item_def)
next
  case (Some j)
  show ?thesis
  proof (cases "i = j")
    case True
    with assms Some show ?thesis by (simp add: write_item_def Let_def)
  next
    case False
    with assms Some show ?thesis by (simp add: write_item_def Let_def)
  qed
qed

lemma poster_write_item:
  assumes "i < length sheet"
    and "m (clean_string (fst item)) = Some i \<longrightarrow> \<not> truthy (Poster (snd item))"
  shows "poster_cell (write_item m item sheet ! i) = poster_cell (sheet ! i)"
proof (cases "m (clean_string (fst item))")
  case None
  then show ?thesis by (simp add: write_item_def)
next
  case (Some j)
  show ?thesis
  proof (cases "i = j")
    case True
    with assms Some show ?thesis by (simp add: write_item_def Let_def)
  next
    case False
    with assms Some show ?thesis by (simp add: write_item_def Let_def)
  qed
qed

lemma still_write_item:
  assumes "i < length sheet"
    and "m (clean_string (fst item)) = Some i \<longrightarrow> \<not> truthy (Still (snd item))"
  shows "still_cell (write_item m item sheet ! i) = still_cell (sheet ! i)"
proof (cases "m (clean_string (fst item))")
  case None
  then show ?thesis by (simp add: write_item_def)
next
  case (Some j)
  show ?thesis
  proof (cases "i = j")
    case True
    with assms Some show ?thesis by (simp add: write_item_def Let_def)
  next
    case False
    with assms Some show ?thesis by (simp add: write_item_def Let_def)
  qed
qed

lemma row_key_title: "title_cell r = title_cell r' \<Longrightarrow> row_key r = row_key r'"
  by (simp add: row_key_def)

lemma fold_write_item:
  assumes "\<forall>k j. m k = Some j \<longrightarrow> j < length sheet \<and> row_key (sheet ! j) = Some k"
  shows "length (fold (write_item m) data sheet) = length sheet
    \<and> (\<forall>i < length sheet.
          title_cell (fold (write_item m) data sheet ! i) = title_cell (sheet ! i)
          \<and> ((\<forall>item \<in> set data. row_key (sheet ! i) = Some (clean_string (fst item))
                 \<longrightarrow> \<not> truthy (Poster (snd item)))
               \<longrightarrow> poster_cell (fold (write_item m) data sheet ! i) = poster_cell (sheet ! i))
          \<and> ((\<forall>item \<in> set data. row_key (sheet ! i) = Some (clean_string (fst item))
                 \<longrightarrow> \<not> truthy (Still (snd item)))
               \<longrightarrow> still_cell (fold (write_item m) data sheet ! i) = still_cell (sheet ! i)))"
  using assms
proof (induction data arbitrary: sheet)
  case Nil
  then show ?case by simp
next
  case (Cons item data)
  define sheet1 where "sheet1 = write_item m item sheet"
  have len: "length sheet1 = length sheet" by (simp add: sheet1_def length_write_item)
  have tit: "title_cell (sheet1 ! i) = title_cell (sheet ! i)" if "i < length sheet" for i
    using that by (simp add: sheet1_def title_write_item)
  have key: "row_key (sheet1 ! i) = row_key (sheet ! i)" if "i < length sheet" for i
    using tit [OF that] by (rule row_key_title)
  have inv1: "\<forall>k j. m k = Some j \<longrightarrow> j < length sheet1 \<and> row_key (sheet1 ! j) = Some k"
    using Cons.prems len key by auto
  note IH = Cons.IH [OF inv1]
  have f: "fold (write_item m) (item # data) sheet = fold (write_item m) data sheet1"
    by (simp add: sheet1_def)
  show ?case unfolding f
  proof (intro conjI allI impI)
    show "length (fold (write_item m) data sheet1) = length sheet" using IH len by simp
  next
    fix i assume i: "i < length sheet"
    with len have i1: "i < length sheet1" by simp
    from IH i1 have "title_cell (fold (write_item m) data sheet1 ! i) = title_cell (sheet1 ! i)"
      by blast
    with tit [OF i] show "title_cell (fold (write_item m) data sheet1 ! i) = title_cell (sheet ! i)"
      by simp
  next
    fix i assume i: "i < length sheet"
      and h: "\<forall>it \<in> set (item # data). row_key (sheet ! i) = Some (clean_string (fst it))
                 \<longrightarrow> \<not> truthy (Poster (snd it))"
    from i len have i1: "i < length sheet1" by simp
    from h key [OF i] have "\<forall>it \<in> set data. row_key (sheet1 ! i) = Some (clean_string (fst it))
                 \<longrightarrow> \<not> truthy (Poster (snd it))" by simp
    with IH i1 have a: "poster_cell (fold (write_item m) data sheet1 ! i) = poster_cell (sheet1 ! i)"
      by blast
    have "m (clean_string (fst item)) = Some i \<longrightarrow> \<not> truthy (Poster (snd item))"
    proof
      assume "m (clean_string (fst item)) = Some i"
      with Cons.prems have "row_key (sheet ! i) = Some (clean_string (fst item))" by blast
      with h show "\<not> truthy (Poster (snd item))" by simp
    qed
    with i have "poster_cell (sheet1 ! i) = poster_cell (sheet ! i)"
      unfolding sheet1_def by (rule poster_write_item)
    with a show "poster_cell (fold (write_item m) data sheet1 ! i) = poster_cell (sheet ! i)"
      by simp
  next
    fix i assume i: "i < length sheet"
      and h: "\<forall>it \<in> set (item # data). row_key (sheet ! i) = Some (clean_string (fst it))
                 \<longrightarrow> \<not> truthy (Still (snd it))"
    from i len have i1: "i < length sheet1" by simp
    from h key [OF i] have "\<forall>it \<in> set data. row_key (sheet1 ! i) = Some (clean_string (fst it))
                 \<longrightarrow> \<not> truthy (Still (snd it))" by simp
    with IH i1 have a: "still_cell (fold (write_item m) data sheet1 ! i) = still_cell (sheet1 ! i)"
      by blast
    have "m (clean_string (fst item)) = Some i \<longrightarrow> \<not> truthy (Still (snd item))"
    proof
      assume "m (clean_string (fst item)) = Some i"
      with Cons.prems have "row_key (sheet ! i) = Some (clean_string (fst item))" by blast
      with h show "\<not> truthy (Still (snd item))" by simp
    qed
    with i have "still_cell (sheet1 ! i) = still_cell (sheet ! i)"
      unfolding sheet1_def by (rule still_write_item)
    with a show "still_cell (fold (write_item m) data sheet1 ! i) = still_cell (sheet ! i)"
      by simp
  qed
qed

text \<open>
  C9. \<open>update_images\<close> keeps the rows and their titles; a row whose cleaned title is the
  cleaned title of no key of the results is left unchanged, and the poster (still) cell
  of a row is left unchanged when no result with that cleaned title carries a poster
  (still) name.
\<close>

theorem update_images_frame:
  assumes "i < length sheet"
  shows "length (update_images sheet data) = length sheet
    \<and> title_cell (update_images sheet data ! i) = title_cell (sheet ! i)
    \<and> ((\<forall>item \<in> set data. row_key (sheet ! i) = Some (clean_string (fst item))
           \<longrightarrow> \<not> truthy (Poster (snd item)))
         \<longrightarrow> poster_cell (update_images sheet data ! i) = poster_cell (sheet ! i))
    \<and> ((\<forall>item \<in> set data. row_key (sheet ! i) = Some (clean_string (fst item))
           \<longrightarrow> \<not> truthy (Still (snd item)))
         \<longrightarrow> still_cell (update_images sheet data ! i) = still_cell (sheet ! i))
    \<and> ((\<forall>item \<in> set data. row_key (sheet ! i) \<noteq> Some (clean_string (fst item)))
         \<longrightarrow> update_images sheet data ! i = sheet ! i)"
proof -
  define m where "m = sheet_title_map sheet 0 Map.empty"
  have inv: "\<forall>k j. m k = Some j \<longrightarrow> j < length sheet \<and> row_key (sheet ! j) = Some k"
    unfolding m_def using sheet_title_map_row by blast
  note F = fold_write_item [OF inv, of data]
  have u: "update_images sheet data = fold (write_item m) data sheet"
    by (simp add: update_images_def m_def)
  from F have len: "length (update_images sheet data) = length sheet" by (simp add: u)
  from F assms have tit: "title_cell (update_images sheet data ! i) = title_cell (sheet ! i)"
    unfolding u by blast
  from F assms have pos: "(\<forall>item \<in> set data. row_key (sheet ! i) = Some (clean_string (fst item))
           \<longrightarrow> \<not> truthy (Poster (snd item)))
         \<longrightarrow> poster_cell (update_images sheet data ! i) = poster_cell (sheet ! i)"
    unfolding u by blast
  from F assms have sti: "(\<forall>item \<in> set data. row_key (sheet ! i) = Some (clean_string (fst item))
           \<longrightarrow> \<not> truthy (Still (snd item)))
         \<longrightarrow> still_cell (update_images sheet data ! i) = still_cell (sheet ! i)"
    unfolding u by blast
  have same: "update_images sheet data ! i = sheet ! i"
    if n: "\<forall>item \<in> set data. row_key (sheet ! i) \<noteq> Some (clean_string (fst item))"
  proof -
    from n pos have "poster_cell (update_images sheet data ! i) = poster_cell (sheet ! i)" by blast
    moreover from n sti have "still_cell (update_images sheet data ! i) = still_cell (sheet ! i)"
      by blast
    ultimately show ?thesis using tit by (simp add: sheet_row.equality)
  qed
  from len tit pos sti same show ?thesis by blast
qed

section \<open>The run on the examples\<close>

lemma strip_Title_A: "strip (py '' Title A '') = py ''Title A''"
  by code_simp

lemma strip_DistX: "strip (py ''DistX'') = py ''DistX''"
  by code_simp

lemma py_Nil_iff: "(py s = []) = (s = [])"
  by (simp add: py_def)

lemma py_eq_iff: "(py s = py t) = (s = t)"
  by (simp add: py_def inj_map_eq_map inj_on_def)

lemma wf_tree_a: "wf_node tree_a"
  by code_simp

lemma resolve_tree_a_Poster:
  "resolve tree_a (py ''Title A'') (py ''DistX'') (py ''Poster'')
     = Inr (Some [py ''DistX'', py ''Poster'', py ''title-a-final.jpg''])"
proof -
  have t: "target_folder entries_a (py ''Poster'')
             = Some (py ''Poster'', Dir [(py ''title-a-final.jpg'', File), (py ''other.jpg'', File)])"
    by code_simp
  have s: "search_folder (py ''Title A'') [py ''DistX'', py ''Poster'']
             (Dir [(py ''title-a-final.jpg'', File), (py ''other.jpg'', File)])
           = Some [py ''DistX'', py ''Poster'', py ''title-a-final.jpg'']"
    by code_simp
  from t s show ?thesis by (simp add: resolve_def find_image_Dir [OF child_tree_a])
qed

lemma resolve_tree_a_Still:
  "resolve tree_a (py ''Title A'') (py ''DistX'') (py ''Still'') = Inr None"
proof -
  have t: "target_folder entries_a (py ''Still'') = None" by code_simp
  have c: "child (Dir entries_a) (py ''Still'') = None" by code_simp
  from t c show ?thesis
    by (simp add: resolve_def find_image_Dir [OF child_tree_a] find_image_by_title_only_def
          child_tree_a)
qed

lemma name_title_a_final:
  "name [py ''DistX'', py ''Poster'', py ''title-a-final.jpg''] = py ''title-a-final.jpg''"
  by (simp add: name_def)

lemma process_row_a_denied:
  "process_row tree_a st0 row_a PermissionDenied Copied =
     Inr \<lparr>movie_data = [(py ''Title A'', \<lparr>Poster = None, Still = None\<rparr>)],
          not_found = [(py ''DistX'', [py ''Title A''])],
          copy_errors = [[py ''DistX'', py ''Poster'', py ''title-a-final.jpg'']]\<rparr>"
  by (simp add: process_row_def row_a_def strip_Title_A strip_DistX py_Nil_iff process_entry_def resolve_tree_a_Poster resolve_tree_a_Still
        copy_if_found_def copy_image_def st0_def Let_def)

lemma process_row_a_copied:
  "process_row tree_a st0 row_a Copied Copied =
     Inr \<lparr>movie_data = [(py ''Title A'',
             \<lparr>Poster = Some (py ''title-a-final.jpg''), Still = None\<rparr>)],
          not_found = [],
          copy_errors = []\<rparr>"
  by (simp add: process_row_def row_a_def strip_Title_A strip_DistX py_Nil_iff process_entry_def resolve_tree_a_Poster resolve_tree_a_Still
        copy_if_found_def copy_image_def st0_def Let_def name_title_a_final)


lemma unmatched_iff_no_transfer_example:
  "process_row tree_a st0 row_a PermissionDenied Copied =
     Inr \<lparr>movie_data = [(py ''Title A'', \<lparr>Poster = None, Still = None\<rparr>)],
          not_found = [(py ''DistX'', [py ''Title A''])],
          copy_errors = [[py ''DistX'', py ''Poster'', py ''title-a-final.jpg'']]\<rparr>
   \<and> bucket [(py ''DistX'', [py ''Title A''])] (py ''DistX'') = bucket [] (py ''DistX'') @ [py ''Title A'']
   \<and> transferred tree_a (py ''Title A'') (py ''DistX'') (py ''Poster'') Copied
   \<and> process_row tree_a st0 row_a Copied Copied =
     Inr \<lparr>movie_data = [(py ''Title A'',
             \<lparr>Poster = Some (py ''title-a-final.jpg''), Still = None\<rparr>)],
          not_found = [],
          copy_errors = []\<rparr>"
proof -
  have t: "Title row_a = Some (py '' Title A '')" by (simp add: row_a_def)
  have d: "Distributor row_a = Some (py ''DistX'')" by (simp add: row_a_def)
  have tn: "strip (py '' Title A '') \<noteq> []" by (simp add: strip_Title_A py_Nil_iff)
  have dn: "strip (py ''DistX'') \<noteq> []" by (simp add: strip_DistX py_Nil_iff)
  have np: "\<not> transferred tree_a (py ''Title A'') (py ''DistX'') (py ''Poster'') PermissionDenied"
    by (simp add: transferred_def resolve_tree_a_Poster)
  have ns: "\<not> transferred tree_a (py ''Title A'') (py ''DistX'') (py ''Still'') Copied"
    by (simp add: transferred_def resolve_tree_a_Still)
  have yp: "transferred tree_a (py ''Title A'') (py ''DistX'') (py ''Poster'') Copied"
    by (simp add: transferred_def resolve_tree_a_Poster)
  from unmatched_iff_no_transfer [OF wf_tree_a t d tn dn process_row_a_denied] np ns
  have a: "bucket [(py ''DistX'', [py ''Title A''])] (py ''DistX'')
             = bucket [] (py ''DistX'') @ [py ''Title A'']"
    by (simp add: strip_Title_A strip_DistX st0_def)
  from unmatched_iff_no_transfer [OF wf_tree_a t d tn dn process_row_a_copied] yp
  have b: "not_found \<lparr>movie_data = [(py ''Title A'',
             \<lparr>Poster = Some (py ''title-a-final.jpg''), Still = None\<rparr>)],
          not_found = [], copy_errors = []\<rparr> = not_found st0"
    by (simp add: strip_Title_A strip_DistX)
  from a yp process_row_a_denied process_row_a_copied show ?thesis by simp
qed

text \<open>
  C7. The claim fails where the path of the distributor is a regular file: \<open>exists()\<close>
  holds, \<open>iterdir()\<close> raises \<open>NotADirectoryError\<close>, and nothing catches it before the
  run ends. Neither attempt ended in a successful transfer, and the title is recorded in
  no bucket, since the run has no result. \<open>find_image_by_title_only\<close>, given the same
  distributor, returns nothing.
\<close>

theorem process_rows_distributor_file:
  "process_rows tree_f st0 [(row_a, Copied, Copied)] = Inl NotADirectoryError
   \<and> find_image tree_f (py ''Title A'') (py ''DistX'') (py ''Poster'') = Inl NotADirectoryError
   \<and> find_image_by_title_only tree_f (py ''Title A'') (py ''DistX'') (py ''Poster'') = None
   \<and> \<not> transferred tree_f (py ''Title A'') (py ''DistX'') (py ''Poster'') Copied
   \<and> \<not> transferred tree_f (py ''Title A'') (py ''DistX'') (py ''Still'') Copied"
proof -
  have c: "child tree_f (py ''DistX'') = Some File" by code_simp
  have fi: "find_image tree_f (py ''Title A'') (py ''DistX'') folder_type = Inl NotADirectoryError"
    for folder_type
    by (simp add: find_image_def c)
  have r: "resolve tree_f (py ''Title A'') (py ''DistX'') folder_type = Inl NotADirectoryError"
    for folder_type
    by (simp add: resolve_def fi)
  have fb: "find_image_by_title_only tree_f (py ''Title A'') (py ''DistX'') (py ''Poster'') = None"
  proof -
    have "child File (py ''Poster'') = None" by (simp add: child_def parts_Poster)
    then show ?thesis by (simp add: find_image_by_title_only_def c)
  qed
  have pr: "process_row tree_f st0 row_a Copied Copied = Inl NotADirectoryError"
    by (simp add: process_row_def row_a_def strip_Title_A strip_DistX py_Nil_iff
          process_entry_def r)
  have np: "\<not> transferred tree_f (py ''Title A'') (py ''DistX'') (py ''Poster'') Copied"
    by (simp add: transferred_def r)
  have ns: "\<not> transferred tree_f (py ''Title A'') (py ''DistX'') (py ''Still'') Copied"
    by (simp add: transferred_def r)
  from pr have "process_rows tree_f st0 [(row_a, Copied, Copied)] = Inl NotADirectoryError"
    by simp
  with fi fb np ns show ?thesis by simp
qed

theorem copy_image_failure_witness:
  "copy_image [] PermissionDenied [py ''DistX'', py ''Poster'', py ''title-a-final.jpg'']
     = (None, [[py ''DistX'', py ''Poster'', py ''title-a-final.jpg'']])
   \<and> copy_image [] Copied [py ''DistX'', py ''Poster'', py ''title-a-final.jpg'']
     = (Some (py ''title-a-final.jpg''), [])
   \<and> \<not> isl (process_rows tree_a st0 [(row_a, PermissionDenied, OtherError)])"
proof -
  note inst = copy_image_failure [of _ "[]" "[py ''DistX'', py ''Poster'', py ''title-a-final.jpg'']"
    tree_a st0 "[(row_a, PermissionDenied, OtherError)]"]
  from inst [of PermissionDenied]
  have a: "copy_image [] PermissionDenied [py ''DistX'', py ''Poster'', py ''title-a-final.jpg'']
     = (None, [[py ''DistX'', py ''Poster'', py ''title-a-final.jpg'']])"
    by simp
  from inst [of Copied]
  have b: "copy_image [] Copied [py ''DistX'', py ''Poster'', py ''title-a-final.jpg'']
     = (Some (py ''title-a-final.jpg''), [])"
    by (simp add: name_title_a_final)
  have "\<not> isl (process_rows tree_a st0 [(row_a, Copied, Copied)])"
    by (simp add: process_row_a_copied)
  with inst [of Copied]
  have c: "\<not> isl (process_rows tree_a st0 [(row_a, PermissionDenied, OtherError)])"
    by simp
  from a b c show ?thesis by simp
qed

lemma sheet_title_map_ab:
  "sheet_title_map sheet_ab 0 Map.empty
     = [py ''titlea'' \<mapsto> 0, py ''titleb'' \<mapsto> 1]"
proof -
  have a: "clean_string (py ''Title A'') = py ''titlea''" by code_simp
  have b: "clean_string (py ''Title B'') = py ''titleb''" by code_simp
  show ?thesis by (simp add: sheet_ab_def a b py_Nil_iff)
qed

theorem update_images_frame_witness:
  "update_images sheet_ab data_a ! 1 = sheet_ab ! 1
   \<and> still_cell (update_images sheet_ab data_a ! 0) = Some (py ''old.jpg'')
   \<and> poster_cell (update_images sheet_ab data_a ! 0) = Some (py ''title-a-final.jpg'')"
proof -
  have k: "clean_string (py ''title a!'') = py ''titlea''" by code_simp
  have a: "clean_string (py ''Title A'') = py ''titlea''" by code_simp
  have b: "clean_string (py ''Title B'') = py ''titleb''" by code_simp
  have l1: "(1::nat) < length sheet_ab" by (simp add: sheet_ab_def)
  have l0: "(0::nat) < length sheet_ab" by (simp add: sheet_ab_def)
  have h1: "\<forall>item \<in> set data_a. row_key (sheet_ab ! 1) \<noteq> Some (clean_string (fst item))"
    by (simp add: data_a_def sheet_ab_def row_key_def k b py_eq_iff py_Nil_iff)
  have h0: "\<forall>item \<in> set data_a. row_key (sheet_ab ! 0) = Some (clean_string (fst item))
              \<longrightarrow> \<not> truthy (Still (snd item))"
    by (simp add: data_a_def)
  from update_images_frame [OF l1, of data_a] h1
  have r1: "update_images sheet_ab data_a ! 1 = sheet_ab ! 1" by blast
  from update_images_frame [OF l0, of data_a] h0
  have "still_cell (update_images sheet_ab data_a ! 0) = still_cell (sheet_ab ! 0)" by blast
  then have r2: "still_cell (update_images sheet_ab data_a ! 0) = Some (py ''old.jpg'')"
    by (simp add: sheet_ab_def)
  have r3: "poster_cell (update_images sheet_ab data_a ! 0) = Some (py ''title-a-final.jpg'')"
  proof -
    have "update_images sheet_ab data_a
            = write_item [py ''titlea'' \<mapsto> 0, py ''titleb'' \<mapsto> 1]
                (py ''title a!'', \<lparr>Poster = Some (py ''title-a-final.jpg''), Still = None\<rparr>)
                sheet_ab"
      by (simp add: update_images_def sheet_title_map_ab data_a_def)
    then show ?thesis
      by (simp add: write_item_def k py_eq_iff py_Nil_iff sheet_ab_def)
  qed
  from r1 r2 r3 show ?thesis by simp
qed

end
